theory Spec2Isabelle
  imports Main "HOL-Library.Sublist" "HOL-Library.AList"
begin

section \<open>The world the script runs in\<close>

text \<open>
  \<open>swinir_easy_runner.py\<close> is a linear script whose every step acts on the file
  system, the console, the network or a child process.  The model threads a
  \<open>world\<close> through the functions of the script; the parts of the world the script
  does not control (the HTTP server, the external inference program, the user who
  copies images into the input folder) are the fields of an \<open>env\<close>.

  A relative path such as \<open>model_zoo/swinir\<close> is the list of its components,
  \<open>[''model_zoo'', ''swinir'']\<close>; the empty list is the working directory.  The
  file system is an association list from paths to nodes, in the order in which a
  directory scan returns them.  There are no symbolic links, and strings are
  sequences of code points below 256.
\<close>

type_synonym path = "string list"

datatype node = File string | Dir

type_synonym filesystem = "(path \<times> node) list"

datatype exn =
    FileExistsError
  | FileNotFoundError
  | NotADirectoryError
  | IsADirectoryError
  | ConnectionError
  | HTTPError
  | ChunkedEncodingError
  | EOFError
  | ValueError
  | OSError
  | ShutilError

definition lookup :: "filesystem \<Rightarrow> path \<Rightarrow> node option" where
  "lookup fs p = (if p = [] then Some Dir else map_of fs p)"

text \<open>\<open>os.path.exists\<close> and \<open>Path.is_dir\<close>.\<close>

definition path_exists :: "filesystem \<Rightarrow> path \<Rightarrow> bool" where
  "path_exists fs p = (lookup fs p \<noteq> None)"

definition is_dir :: "filesystem \<Rightarrow> path \<Rightarrow> bool" where
  "is_dir fs p = (lookup fs p = Some Dir)"

text \<open>
  \<open>os.mkdir\<close>: \<open>EEXIST\<close> for a path that exists; otherwise the parent has to
  be a directory (\<open>ENOENT\<close> when it is missing, \<open>ENOTDIR\<close> when it is a file).
\<close>

definition os_mkdir :: "filesystem \<Rightarrow> path \<Rightarrow> exn + filesystem" where
  "os_mkdir fs p =
     (if path_exists fs p then Inl FileExistsError
      else
        (case lookup fs (butlast p) of
           None \<Rightarrow> Inl FileNotFoundError
         | Some (File c) \<Rightarrow> Inl NotADirectoryError
         | Some Dir \<Rightarrow> Inr (fs @ [(p, Dir)])))"

text \<open>
  \<open>Path.mkdir(parents=True, exist_ok=True)\<close>, as pathlib writes it: try
  \<open>os.mkdir\<close>; on \<open>FileNotFoundError\<close> make the parent the same way and then the
  directory itself with \<open>parents=False\<close>; any other \<open>OSError\<close> is swallowed
  exactly when the path is a directory.
\<close>

function mkdir_parents :: "filesystem \<Rightarrow> path \<Rightarrow> exn + filesystem" where
  "mkdir_parents fs p =
     (case os_mkdir fs p of
        Inr fs' \<Rightarrow> Inr fs'
      | Inl e \<Rightarrow>
          if e = FileNotFoundError then
            if p = [] then Inl FileNotFoundError
            else
              (case mkdir_parents fs (butlast p) of
                 Inl e1 \<Rightarrow> Inl e1
               | Inr fs1 \<Rightarrow>
                   (case os_mkdir fs1 p of
                      Inr fs2 \<Rightarrow> Inr fs2
                    | Inl e2 \<Rightarrow>
                        if e2 = FileNotFoundError then Inl FileNotFoundError
                        else if is_dir fs1 p then Inr fs1 else Inl e2))
          else if is_dir fs p then Inr fs else Inl e)"
  by pat_completeness auto
termination
  by (relation "measure (\<lambda>(fs, p). length p)") auto

declare mkdir_parents.simps [simp del]

text \<open>
  The names a scan of directory \<open>d\<close> returns (\<open>os.scandir\<close>), each once.
\<close>

definition children :: "filesystem \<Rightarrow> path \<Rightarrow> string list" where
  "children fs d = [last p. p \<leftarrow> remdups (map fst fs), p \<noteq> [], butlast p = d]"

text \<open>\<open>Path.iterdir\<close>, consumed: the names in a directory, an error for anything else.\<close>

definition iterdir :: "filesystem \<Rightarrow> path \<Rightarrow> exn + string list" where
  "iterdir fs d =
     (case lookup fs d of
        None \<Rightarrow> Inl FileNotFoundError
      | Some (File c) \<Rightarrow> Inl NotADirectoryError
      | Some Dir \<Rightarrow> Inr (children fs d))"

text \<open>
  \<open>Path.glob("*" + ext)\<close> for an extension without wildcard characters: the
  entries of the directory whose name ends with \<open>ext\<close>, case-sensitively (POSIX),
  hidden files included; nothing when the path is no directory.
\<close>

definition glob_suffix :: "filesystem \<Rightarrow> path \<Rightarrow> string \<Rightarrow> path list" where
  "glob_suffix fs d ext =
     (if is_dir fs d then [d @ [n]. n \<leftarrow> children fs d, suffix ext n] else [])"

text \<open>
  \<open>open(path, "wb")\<close> (and \<open>"w"\<close>): an existing file is truncated, a directory
  refused, a new file needs its parent directory.
\<close>

definition open_wb :: "filesystem \<Rightarrow> path \<Rightarrow> exn + filesystem" where
  "open_wb fs p =
     (case lookup fs p of
        Some Dir \<Rightarrow> Inl IsADirectoryError
      | Some (File c) \<Rightarrow> Inr (AList.update p (File []) fs)
      | None \<Rightarrow>
          (case lookup fs (butlast p) of
             None \<Rightarrow> Inl FileNotFoundError
           | Some (File c) \<Rightarrow> Inl NotADirectoryError
           | Some Dir \<Rightarrow> Inr (AList.update p (File []) fs)))"

text \<open>\<open>f.write(data)\<close> on the file opened at \<open>p\<close>: the data is appended.\<close>

definition file_write :: "filesystem \<Rightarrow> path \<Rightarrow> string \<Rightarrow> filesystem" where
  "file_write fs p data =
     (case lookup fs p of
        Some (File c) \<Rightarrow> AList.update p (File (c @ data)) fs
      | _ \<Rightarrow> fs)"

text \<open>
  \<open>shutil.rmtree\<close>: removes a directory with everything below it; raises on a
  missing path and on a regular file.
\<close>

definition rmtree :: "filesystem \<Rightarrow> path \<Rightarrow> exn + filesystem" where
  "rmtree fs p =
     (case lookup fs p of
        None \<Rightarrow> Inl FileNotFoundError
      | Some (File c) \<Rightarrow> Inl NotADirectoryError
      | Some Dir \<Rightarrow> Inr (filter (\<lambda>(q, n). \<not> prefix p q) fs))"

text \<open>
  \<open>os.rename\<close> (POSIX): the node at \<open>src\<close> and everything below it moves to
  \<open>dst\<close>.  A file replaces a file, a directory replaces an empty directory.
\<close>

definition rename_tree :: "filesystem \<Rightarrow> path \<Rightarrow> path \<Rightarrow> filesystem" where
  "rename_tree fs src dst =
     map (\<lambda>(q, n). if prefix src q then (dst @ drop (length src) q, n) else (q, n)) fs"

definition os_rename :: "filesystem \<Rightarrow> path \<Rightarrow> path \<Rightarrow> exn + filesystem" where
  "os_rename fs src dst =
     (case lookup fs src of
        None \<Rightarrow> Inl FileNotFoundError
      | Some s \<Rightarrow>
          if src = dst then Inr fs
          else if prefix src dst then Inl OSError
          else
            (case lookup fs dst of
               None \<Rightarrow>
                 if is_dir fs (butlast dst) then Inr (rename_tree fs src dst)
                 else Inl FileNotFoundError
             | Some (File c) \<Rightarrow>
                 if s = Dir then Inl NotADirectoryError
                 else Inr (rename_tree (filter (\<lambda>(q, n). q \<noteq> dst) fs) src dst)
             | Some Dir \<Rightarrow>
                 if s \<noteq> Dir then Inl IsADirectoryError
                 else if children fs dst \<noteq> [] then Inl OSError
                 else Inr (rename_tree (filter (\<lambda>(q, n). q \<noteq> dst) fs) src dst)))"

text \<open>
  \<open>shutil.move(src, dst)\<close>: into \<open>dst\<close> when that is an existing directory
  (refused when the name is taken there), by \<open>os.rename\<close> otherwise.  Source and
  destination are on one file system: the copy-and-delete path that
  \<open>shutil.move\<close> takes when \<open>os.rename\<close> fails is not modelled, the error of
  \<open>os.rename\<close> is the result.
\<close>

definition move :: "filesystem \<Rightarrow> path \<Rightarrow> path \<Rightarrow> exn + filesystem" where
  "move fs src dst =
     (if is_dir fs dst then
        if src = dst then os_rename fs src dst
        else if path_exists fs (dst @ [last src]) then Inl ShutilError
        else os_rename fs src (dst @ [last src])
      else os_rename fs src dst)"

section \<open>Strings\<close>

text \<open>\<open>str.upper\<close> and \<open>str.lower\<close> on code points below 256 that stay below 256.\<close>

definition upper_char :: "char \<Rightarrow> char" where
  "upper_char c =
     (let n = (of_char c :: nat) in
      if (97 \<le> n \<and> n \<le> 122) \<or> (224 \<le> n \<and> n \<le> 254 \<and> n \<noteq> 247)
      then char_of (n - 32) else c)"

definition lower_char :: "char \<Rightarrow> char" where
  "lower_char c =
     (let n = (of_char c :: nat) in
      if (65 \<le> n \<and> n \<le> 90) \<or> (192 \<le> n \<and> n \<le> 222 \<and> n \<noteq> 215)
      then char_of (n + 32) else c)"

definition upper :: "string \<Rightarrow> string" where
  "upper s = map upper_char s"

definition lower :: "string \<Rightarrow> string" where
  "lower s = map lower_char s"

text \<open>\<open>str.isspace\<close> on one code point below 256.\<close>

definition is_space :: "char \<Rightarrow> bool" where
  "is_space c =
     (let n = (of_char c :: nat) in
      (9 \<le> n \<and> n \<le> 13) \<or> (28 \<le> n \<and> n \<le> 32) \<or> n = 133 \<or> n = 160)"

definition strip :: "string \<Rightarrow> string" where
  "strip s = rev (dropWhile is_space (rev (dropWhile is_space s)))"

text \<open>\<open>str.split()\<close>: the maximal runs of characters that are not white space.\<close>

fun split_acc :: "string \<Rightarrow> string \<Rightarrow> string list" where
  "split_acc cur [] = (if cur = [] then [] else [cur])"
| "split_acc cur (c # cs) =
     (if is_space c then (if cur = [] then split_acc [] cs else cur # split_acc [] cs)
      else split_acc (cur @ [c]) cs)"

definition split :: "string \<Rightarrow> string list" where
  "split s = split_acc [] s"

text \<open>\<open>str(n)\<close> for an integer: decimal digits, \<open>-\<close> before a negative one.\<close>

definition digit_char :: "nat \<Rightarrow> char" where
  "digit_char d = char_of (48 + d)"

fun str_nat :: "nat \<Rightarrow> string" where
  "str_nat n = (if n < 10 then [digit_char n] else str_nat (n div 10) @ [digit_char (n mod 10)])"

declare str_nat.simps [simp del]

definition str_int :: "int \<Rightarrow> string" where
  "str_int i = (if i < 0 then CHR ''-'' # str_nat (nat (- i)) else str_nat (nat i))"

text \<open>
  \<open>int(s)\<close> for a string without white space: an optional sign, then decimal
  digits, single underscores allowed between digits; \<open>ValueError\<close> otherwise.
\<close>

definition is_digit :: "char \<Rightarrow> bool" where
  "is_digit c = (48 \<le> (of_char c :: nat) \<and> (of_char c :: nat) \<le> 57)"

fun valid_digits :: "string \<Rightarrow> bool" where
  "valid_digits [] = False"
| "valid_digits [c] = is_digit c"
| "valid_digits (c # d # cs) =
     (is_digit c \<and> (if d = CHR ''_'' then valid_digits cs else valid_digits (d # cs)))"

definition digits_value :: "string \<Rightarrow> nat" where
  "digits_value s = foldl (\<lambda>acc c. 10 * acc + (of_char c - 48)) 0 s"

definition py_int :: "string \<Rightarrow> exn + int" where
  "py_int s =
     (let neg = (s \<noteq> [] \<and> hd s = CHR ''-'');
          body = (if s \<noteq> [] \<and> (hd s = CHR ''-'' \<or> hd s = CHR ''+'') then tl s else s)
      in if valid_digits body
         then Inr ((if neg then - 1 else 1) *
                   int (digits_value (filter (\<lambda>c. c \<noteq> CHR ''_'') body)))
         else Inl ValueError)"

text \<open>\<open>[int(x) for x in xs]\<close>: the first string that is no integer raises.\<close>

fun parse_levels :: "string list \<Rightarrow> exn + int list" where
  "parse_levels [] = Inr []"
| "parse_levels (x # xs) =
     (case py_int x of
        Inl e \<Rightarrow> Inl e
      | Inr n \<Rightarrow> (case parse_levels xs of Inl e \<Rightarrow> Inl e | Inr ns \<Rightarrow> Inr (n # ns)))"

section \<open>Console, network and child processes\<close>

text \<open>
  One constructor per \<open>print\<close> (or \<open>input\<close> prompt) of the script, carrying the
  values the message is formatted from.
\<close>

datatype msg =
    MsgDirCreated path
  | MsgModelExists string
  | MsgDownloading string
  | MsgDownloadDone string
  | MsgDownloadFailed string exn
  | MsgPlaceImages
  | MsgTestDir path
  | MsgFormats
  | PromptContinue
  | MsgFound nat
  | MsgImageName string
  | MsgMore nat
  | MsgRunStart int
  | MsgDenoiseDone path
  | MsgResultDirMissing path
  | MsgRunFailed int
  | MsgErrorInfo string
  | MsgSuggestTile
  | MsgCompareHeader
  | MsgRule nat
  | MsgCompareLine int nat path
  | MsgAdviceHeader
  | MsgAdvice nat
  | MsgEnsembleCreated
  | MsgBanner
  | MsgStepDirs
  | MsgStepModels
  | MsgDownloadFatal
  | MsgStepImages
  | MsgNoImages
  | MsgMenuHeader
  | MsgMenuOption nat
  | PromptChoice
  | PromptCustom
  | PromptTile
  | MsgStart "int list"
  | PromptEnsemble
  | MsgFinished
  | MsgProjectAdviceHeader
  | MsgProjectAdvice nat

text \<open>
  What \<open>requests.get(url, stream=True)\<close> gives: no connection, or a response with a
  status code and the chunks \<open>iter_content\<close> yields before the stream ends, cleanly
  or (\<open>broken\<close>) with an error.
\<close>

datatype http_result =
    NoConnection
  | Response nat "string list" bool

text \<open>
  What \<open>subprocess.run(cmd, capture_output=True, text=True, check=True)\<close> gives: the
  program could not be started, or it ran to an exit code, with its captured
  standard error and the file system it left.  The captured standard output is
  never read by the script and is left out.
\<close>

datatype proc_result =
    SpawnFailed exn
  | Completed int string filesystem

record env =
  net :: "string \<Rightarrow> http_result"
  proc :: "string list \<Rightarrow> filesystem \<Rightarrow> proc_result"
  user_places :: "filesystem \<Rightarrow> filesystem"

text \<open>
  \<open>reqs\<close> and \<open>calls\<close> are the history of the HTTP requests issued and of the
  child processes run (command line and exit code); \<open>inp\<close> is the lines still to
  be read from standard input.
\<close>

record world =
  disk :: filesystem
  out :: "msg list"
  inp :: "string list"
  reqs :: "string list"
  calls :: "(string list \<times> int) list"

definition print :: "msg \<Rightarrow> world \<Rightarrow> world" where
  "print m w = w\<lparr>out := out w @ [m]\<rparr>"

text \<open>\<open>input(prompt)\<close>: writes the prompt, reads one line, \<open>EOFError\<close> at end of input.\<close>

definition input :: "msg \<Rightarrow> world \<Rightarrow> exn + (string \<times> world)" where
  "input prompt w =
     (case inp w of
        [] \<Rightarrow> Inl EOFError
      | l # ls \<Rightarrow> Inr (l, (print prompt w)\<lparr>inp := ls\<rparr>))"

section \<open>setup_directories\<close>

definition dirs :: "path list" where
  "dirs = [[''model_zoo'', ''swinir''], [''testsets'', ''project_images''], [''results'']]"

fun setup_loop :: "path list \<Rightarrow> world \<Rightarrow> exn + world" where
  "setup_loop [] w = Inr w"
| "setup_loop (dir_path # rest) w =
     (case mkdir_parents (disk w) dir_path of
        Inl e \<Rightarrow> Inl e
      | Inr fs' \<Rightarrow> setup_loop rest (print (MsgDirCreated dir_path) (w\<lparr>disk := fs'\<rparr>)))"

definition setup_directories :: "world \<Rightarrow> exn + world" where
  "setup_directories w = setup_loop dirs w"

section \<open>download_models\<close>

definition models :: "(string \<times> string) list" where
  "models =
     [(''noise15'', ''005_colorDN_DFWB_s128w8_SwinIR-M_noise15.pth''),
      (''noise25'', ''005_colorDN_DFWB_s128w8_SwinIR-M_noise25.pth''),
      (''noise50'', ''005_colorDN_DFWB_s128w8_SwinIR-M_noise50.pth'')]"

definition base_url :: string where
  "base_url = ''https://github.com/JingyunLiang/SwinIR/releases/download/v0.0/''"

definition model_path :: "string \<Rightarrow> path" where
  "model_path filename = [''model_zoo'', ''swinir'', filename]"

text \<open>The \<open>for chunk in response.iter_content(...)\<close> loop.\<close>

fun write_chunks :: "filesystem \<Rightarrow> path \<Rightarrow> string list \<Rightarrow> filesystem" where
  "write_chunks fs p [] = fs"
| "write_chunks fs p (chunk # rest) = write_chunks (file_write fs p chunk) p rest"

text \<open>
  The body of the \<open>try\<close>: the world it leaves, and the exception that ended it,
  if any.  Leaving the \<open>with\<close> block closes the file with what was written.
\<close>

definition fetch :: "env \<Rightarrow> string \<Rightarrow> world \<Rightarrow> world \<times> exn option" where
  "fetch e filename w =
     (let url = base_url @ filename;
          w1 = w\<lparr>reqs := reqs w @ [url]\<rparr>
      in case net e url of
           NoConnection \<Rightarrow> (w1, Some ConnectionError)
         | Response status chunks broken \<Rightarrow>
             if 400 \<le> status \<and> status < 600 then (w1, Some HTTPError)
             else
               (case open_wb (disk w1) (model_path filename) of
                  Inl x \<Rightarrow> (w1, Some x)
                | Inr fs1 \<Rightarrow>
                    let w2 = w1\<lparr>disk := write_chunks fs1 (model_path filename) chunks\<rparr>
                    in if broken then (w2, Some ChunkedEncodingError)
                       else (print (MsgDownloadDone filename) w2, None)))"

fun download_loop :: "env \<Rightarrow> (string \<times> string) list \<Rightarrow> world \<Rightarrow> world \<times> bool" where
  "download_loop e [] w = (w, True)"
| "download_loop e ((name, filename) # rest) w =
     (if path_exists (disk w) (model_path filename)
      then download_loop e rest (print (MsgModelExists filename) w)
      else
        (case fetch e filename (print (MsgDownloading filename) w) of
           (w', Some x) \<Rightarrow> (print (MsgDownloadFailed filename x) w', False)
         | (w', None) \<Rightarrow> download_loop e rest w'))"

definition download_models :: "env \<Rightarrow> world \<Rightarrow> world \<times> bool" where
  "download_models e w = download_loop e models w"

section \<open>prepare_test_images\<close>

definition test_dir :: path where
  "test_dir = [''testsets'', ''project_images'']"

definition image_extensions :: "string list" where
  "image_extensions = [''.jpg'', ''.jpeg'', ''.png'', ''.bmp'', ''.tiff'']"

text \<open>The list \<open>images\<close> the two \<open>glob\<close> calls per extension build.\<close>

definition find_images :: "filesystem \<Rightarrow> path list" where
  "find_images fs =
     concat (map (\<lambda>ext. glob_suffix fs test_dir ext @ glob_suffix fs test_dir (upper ext))
               image_extensions)"

text \<open>
  While the script waits at \<open>input\<close> for the Enter key, the user copies images
  into the folder: \<open>user_places\<close>.
\<close>

definition prepare_test_images :: "env \<Rightarrow> world \<Rightarrow> exn + (world \<times> bool)" where
  "prepare_test_images e w =
     (case iterdir (disk w) test_dir of
        Inl x \<Rightarrow> Inl x
      | Inr names \<Rightarrow>
          (case (if names = [] then
                   (case input PromptContinue
                           (print MsgFormats (print (MsgTestDir test_dir) (print MsgPlaceImages w))) of
                      Inl x \<Rightarrow> Inl x
                    | Inr (l, w1) \<Rightarrow> Inr (w1\<lparr>disk := user_places e (disk w1)\<rparr>))
                 else Inr w) of
             Inl x \<Rightarrow> Inl x
           | Inr w2 \<Rightarrow>
               let images = find_images (disk w2);
                   w3 = print (MsgFound (length images)) w2;
                   w4 = fold (\<lambda>img. print (MsgImageName (last img))) (take 5 images) w3;
                   w5 = (if length images > 5 then print (MsgMore (length images - 5)) w4 else w4)
               in Inr (w5, length images > 0)))"

section \<open>run_denoising\<close>

definition cmd :: "int \<Rightarrow> bool \<Rightarrow> string list" where
  "cmd noise use_tile =
     [''python'', ''main_test_swinir.py'',
      ''--task'', ''color_dn'',
      ''--noise'', str_int noise,
      ''--model_path'',
      ''model_zoo/swinir/005_colorDN_DFWB_s128w8_SwinIR-M_noise'' @ str_int noise @ ''.pth'',
      ''--folder_gt'', ''testsets/project_images'']
     @ (if use_tile then [''--tile'', ''400'', ''--tile_overlap'', ''32''] else [])"

definition old_dir :: "int \<Rightarrow> path" where
  "old_dir noise = [''results'', ''swinir_color_dn_noise'' @ str_int noise]"

definition new_dir :: "int \<Rightarrow> path" where
  "new_dir noise = [''results'', ''project_denoised_noise'' @ str_int noise]"

definition suggests_tile :: "string \<Rightarrow> bool" where
  "suggests_tile stderr =
     (sublist ''out of memory'' (lower stderr) \<or> sublist ''cuda'' (lower stderr))"

type_synonym results = "(int \<times> path) list"

text \<open>
  One round of the \<open>for noise in noise_levels\<close> loop.  \<open>results_summary\<close> is a
  dictionary in insertion order: \<open>AList.update\<close> replaces the value of a key that
  is present and appends a new key.
\<close>

definition denoise_level :: "env \<Rightarrow> bool \<Rightarrow> int \<Rightarrow> world \<times> results \<Rightarrow> exn + (world \<times> results)" where
  "denoise_level e use_tile noise st =
     (let w1 = print (MsgRunStart noise) (fst st);
          results_summary = snd st;
          c = cmd noise use_tile
      in case proc e c (disk w1) of
           SpawnFailed x \<Rightarrow> Inl x
         | Completed returncode stderr fs1 \<Rightarrow>
             let w2 = w1\<lparr>disk := fs1, calls := calls w1 @ [(c, returncode)]\<rparr>
             in if returncode = 0 then
                  if path_exists fs1 (old_dir noise) then
                    (case (if path_exists fs1 (new_dir noise) then rmtree fs1 (new_dir noise)
                           else Inr fs1) of
                       Inl x \<Rightarrow> Inl x
                     | Inr fs2 \<Rightarrow>
                         (case move fs2 (old_dir noise) (new_dir noise) of
                            Inl x \<Rightarrow> Inl x
                          | Inr fs3 \<Rightarrow>
                              Inr (print (MsgDenoiseDone (new_dir noise)) (w2\<lparr>disk := fs3\<rparr>),
                                   AList.update noise (new_dir noise) results_summary)))
                  else Inr (print (MsgResultDirMissing (old_dir noise)) w2, results_summary)
                else
                  let w3 = print (MsgErrorInfo stderr) (print (MsgRunFailed noise) w2)
                  in Inr (if suggests_tile stderr then print MsgSuggestTile w3 else w3,
                          results_summary))"

fun run_loop :: "env \<Rightarrow> bool \<Rightarrow> int list \<Rightarrow> world \<times> results \<Rightarrow> exn + (world \<times> results)" where
  "run_loop e use_tile [] st = Inr st"
| "run_loop e use_tile (noise # rest) st =
     (case denoise_level e use_tile noise st of
        Inl x \<Rightarrow> Inl x
      | Inr st' \<Rightarrow> run_loop e use_tile rest st')"

definition run_denoising :: "env \<Rightarrow> int list \<Rightarrow> bool \<Rightarrow> world \<Rightarrow> exn + (world \<times> results)" where
  "run_denoising e noise_levels use_tile w = run_loop e use_tile noise_levels (w, [])"

section \<open>compare_results and create_ensemble_script\<close>

definition compare_results :: "results \<Rightarrow> world \<Rightarrow> world" where
  "compare_results results_summary w =
     (if results_summary = [] then w
      else
        let w1 = print (MsgRule 50) (print MsgCompareHeader w);
            w2 = fold (\<lambda>(noise, result_dir) v.
                         if path_exists (disk v) result_dir
                         then print (MsgCompareLine noise
                                       (length (glob_suffix (disk v) result_dir ''.png''))
                                       result_dir) v
                         else v)
                   results_summary w1
        in print (MsgAdvice 3) (print (MsgAdvice 2) (print (MsgAdvice 1)
             (print MsgAdviceHeader w2))))"

text \<open>
  The text of the generated script (lines 157 to 207 of the source) plays no part
  in what follows; it is the parameter \<open>ensemble_code\<close>.
\<close>

definition create_ensemble_script :: "string \<Rightarrow> world \<Rightarrow> exn + world" where
  "create_ensemble_script ensemble_code w =
     (case open_wb (disk w) [''create_ensemble.py''] of
        Inl x \<Rightarrow> Inl x
      | Inr fs1 \<Rightarrow>
          Inr (print MsgEnsembleCreated
                 (w\<lparr>disk := file_write fs1 [''create_ensemble.py''] ensemble_code\<rparr>)))"

section \<open>main\<close>

text \<open>Step 4 of \<open>main\<close> (lines 235 to 251): the menu and the choice of noise levels.\<close>

definition choose_noise_levels :: "world \<Rightarrow> exn + (int list \<times> world)" where
  "choose_noise_levels w =
     (case input PromptChoice
             (print (MsgMenuOption 3) (print (MsgMenuOption 2) (print (MsgMenuOption 1)
                (print MsgMenuHeader w)))) of
        Inl x \<Rightarrow> Inl x
      | Inr (l, w1) \<Rightarrow>
          let choice = strip l
          in if choice = ''1'' then Inr ([25], w1)
             else if choice = ''2'' then Inr ([15, 25, 50], w1)
             else if choice = ''3'' then
               (case input PromptCustom w1 of
                  Inl x \<Rightarrow> Inl x
                | Inr (custom, w2) \<Rightarrow>
                    (case parse_levels (split custom) of
                       Inl x \<Rightarrow> Inl x
                     | Inr noise_levels \<Rightarrow> Inr (noise_levels, w2)))
             else Inr ([25], w1))"

text \<open>Steps 6 and 7 and the closing messages (lines 260 to 274).\<close>

definition final_messages :: "msg list" where
  "final_messages =
     [MsgFinished, MsgProjectAdviceHeader, MsgProjectAdvice 1, MsgProjectAdvice 2,
      MsgProjectAdvice 3, MsgProjectAdvice 4]"

definition report :: "string \<Rightarrow> results \<Rightarrow> world \<Rightarrow> exn + world" where
  "report ensemble_code results w =
     (let w1 = compare_results results w
      in case (if length results > 1 then
                 (case input PromptEnsemble w1 of
                    Inl x \<Rightarrow> Inl x
                  | Inr (l, w2) \<Rightarrow>
                      if lower l = ''y'' then create_ensemble_script ensemble_code w2
                      else Inr w2)
               else Inr w1) of
           Inl x \<Rightarrow> Inl x
         | Inr w3 \<Rightarrow> Inr (w3\<lparr>out := out w3 @ final_messages\<rparr>))"

text \<open>The banner and step 1 (lines 216 to 221).\<close>

definition start :: "world \<Rightarrow> exn + world" where
  "start w = setup_directories (print MsgStepDirs (print (MsgRule 60) (print MsgBanner w)))"

definition main :: "string \<Rightarrow> env \<Rightarrow> world \<Rightarrow> exn + world" where
  "main ensemble_code e w =
     (case start w of
        Inl x \<Rightarrow> Inl x
      | Inr w1 \<Rightarrow>
          (case download_models e (print MsgStepModels w1) of
             (w2, downloaded) \<Rightarrow>
               if \<not> downloaded then Inr (print MsgDownloadFatal w2)
               else
                 (case prepare_test_images e (print MsgStepImages w2) of
                    Inl x \<Rightarrow> Inl x
                  | Inr (w3, found) \<Rightarrow>
                      if \<not> found then Inr (print MsgNoImages w3)
                      else
                        (case choose_noise_levels w3 of
                           Inl x \<Rightarrow> Inl x
                         | Inr (noise_levels, w4) \<Rightarrow>
                             (case input PromptTile w4 of
                                Inl x \<Rightarrow> Inl x
                              | Inr (l, w5) \<Rightarrow>
                                  (case run_denoising e noise_levels (lower l = ''y'')
                                          (print (MsgStart noise_levels) w5) of
                                     Inl x \<Rightarrow> Inl x
                                   | Inr (w6, results) \<Rightarrow>
                                       report ensemble_code results w6))))))"

section \<open>Observations and concrete worlds\<close>

text \<open>A fresh working directory, nothing printed, nothing typed.\<close>

definition world0 :: world where
  "world0 = \<lparr>disk = [], out = [], inp = [], reqs = [], calls = []\<rparr>"

text \<open>The same after a first run of \<open>setup_directories\<close>.\<close>

definition world1 :: world where
  "world1 = \<lparr>disk =
        [([''model_zoo''], Dir), ([''model_zoo'', ''swinir''], Dir),
         ([''testsets''], Dir), ([''testsets'', ''project_images''], Dir),
         ([''results''], Dir)],
        out =
          [MsgDirCreated [''model_zoo'', ''swinir''],
           MsgDirCreated [''testsets'', ''project_images''],
           MsgDirCreated [''results'']],
        inp = [], reqs = [], calls = []\<rparr>"

text \<open>A network or HTTP error of a download: what makes the body of the \<open>try\<close> raise.\<close>

definition net_fails :: "http_result \<Rightarrow> bool" where
  "net_fails r =
     (case r of
        NoConnection \<Rightarrow> True
      | Response status chunks broken \<Rightarrow> (400 \<le> status \<and> status < 600) \<or> broken)"

text \<open>The requests issued between two worlds.\<close>

definition new_requests :: "world \<Rightarrow> world \<Rightarrow> string list" where
  "new_requests w w' = drop (length (reqs w)) (reqs w')"

text \<open>No network, and no \<open>python\<close> to start.\<close>

definition offline :: env where
  "offline = \<lparr>net = (\<lambda>url. NoConnection),
              proc = (\<lambda>c fs. SpawnFailed FileNotFoundError),
              user_places = (\<lambda>fs. fs)\<rparr>"

text \<open>The first two weight files.\<close>

definition weights15 :: string where
  "weights15 = ''005_colorDN_DFWB_s128w8_SwinIR-M_noise15.pth''"

definition weights25 :: string where
  "weights25 = ''005_colorDN_DFWB_s128w8_SwinIR-M_noise25.pth''"

text \<open>After \<open>setup_directories\<close>, with something at the path of the first weight file.\<close>

definition world2 :: world where
  "world2 = world1\<lparr>disk := disk world1 @ [(model_path weights15, File ''partial'')]\<rparr>"

text \<open>A server whose every response breaks after five bytes.\<close>

definition flaky :: env where
  "flaky = \<lparr>net = (\<lambda>url. Response 200 [''abc'', ''de''] True),
            proc = (\<lambda>c fs. SpawnFailed FileNotFoundError),
            user_places = (\<lambda>fs. fs)\<rparr>"

text \<open>What a run of \<open>download_models\<close> against that server leaves.\<close>

definition world3 :: world where
  "world3 = world1\<lparr>disk := disk world1 @ [(model_path weights15, File ''abcde'')],
                    out := out world1 @ [MsgDownloading weights15,
                                         MsgDownloadFailed weights15 ChunkedEncodingError],
                    reqs := [base_url @ weights15]\<rparr>"


text \<open>The file system after a run that succeeded and left its output directory:
  the destination removed when present, the output directory renamed.\<close>

definition renamed :: "filesystem \<Rightarrow> int \<Rightarrow> filesystem" where
  "renamed fs1 noise =
     rename_tree
       (if path_exists fs1 (new_dir noise)
        then filter (\<lambda>(q, n). \<not> prefix (new_dir noise) q) fs1 else fs1)
       (old_dir noise) (new_dir noise)"


definition successes :: "(string list \<times> int) list \<Rightarrow> nat" where
  "successes cs = length (filter (\<lambda>(c, returncode). returncode = 0) cs)"


text \<open>A stub of the external program for level 25 that always leaves the same tree,
  and fails for every other level.\<close>

definition stub_tree :: filesystem where
  "stub_tree =
     [([''results''], Dir), (old_dir 25, Dir),
      (old_dir 25 @ [''photo_SwinIR.png''], File ''denoised'')]"

definition stub25 :: env where
  "stub25 = \<lparr>net = (\<lambda>url. NoConnection),
             proc = (\<lambda>c fs0. if c = cmd 25 False then Completed 0 [] stub_tree
                               else Completed 1 ''RuntimeError: CUDA out of memory'' fs0),
             user_places = (\<lambda>fs0. fs0)\<rparr>"


text \<open>A program that adds its output for level 25 to what is on disk.\<close>

definition stub_keep :: env where
  "stub_keep = \<lparr>net = (\<lambda>url. NoConnection),
             proc = (\<lambda>c fs0. Completed 0 []
                        (fs0 @ [(old_dir 25, Dir),
                                (old_dir 25 @ [''photo_SwinIR.png''], File ''denoised'')])),
             user_places = (\<lambda>fs0. fs0)\<rparr>"

text \<open>After \<open>setup_directories\<close>, with the result directory of an earlier run for level 25.\<close>

definition world5 :: world where
  "world5 = world1\<lparr>disk := disk world1 @
       [(new_dir 25, Dir), (new_dir 25 @ [''stale_SwinIR.png''], File ''previous'')]\<rparr>"

text \<open>The third weight file, and a disk with the directories and all three weight files.\<close>

definition weights50 :: string where
  "weights50 = ''005_colorDN_DFWB_s128w8_SwinIR-M_noise50.pth''"

definition ready_disk :: filesystem where
  "ready_disk = disk world1 @
     [(model_path weights15, File ''w15''), (model_path weights25, File ''w25''),
      (model_path weights50, File ''w50'')]"

text \<open>An external program that always fails.\<close>

definition no_gpu :: env where
  "no_gpu = \<lparr>net = (\<lambda>url. NoConnection),
             proc = (\<lambda>c fs0. Completed 1 ''RuntimeError: no CUDA device'' fs0),
             user_places = (\<lambda>fs0. fs0)\<rparr>"

text \<open>Ready to run, with an image; the user chooses a custom level and mistypes it.\<close>

definition world6 :: world where
  "world6 = world0\<lparr>disk := ready_disk @ [(test_dir @ [''photo.png''], File ''PNG'')],
                    inp := [''3'', ''fifteen 25'']\<rparr>"

text \<open>Ready to run, with an image; the user chooses level 25, no tiling.\<close>

definition world7 :: world where
  "world7 = world0\<lparr>disk := ready_disk @ [(test_dir @ [''photo.png''], File ''PNG'')],
                    inp := [''1'', ''n'', ''y'']\<rparr>"

text \<open>Ready to run, but without images; the user just presses Enter.\<close>

definition world8 :: world where
  "world8 = world0\<lparr>disk := ready_disk, inp := [[]]\<rparr>"


section \<open>Directory setup is idempotent\<close>

lemma lookup_append_keep:
  "lookup fs q = Some n \<Longrightarrow> lookup (fs @ [(p, m)]) q = Some n"
  by (auto simp: lookup_def)

lemma lookup_append_same:
  "lookup fs p = None \<Longrightarrow> lookup (fs @ [(p, m)]) p = Some m"
  by (auto simp: lookup_def map_add_def split: if_splits option.splits)

lemma lookup_append_cases:
  "lookup (fs @ [(p, m)]) q = Some n \<Longrightarrow> lookup fs q = Some n \<or> q = p"
  by (auto simp: lookup_def map_add_def split: if_splits option.splits)

lemma os_mkdir_Inr:
  "os_mkdir fs p = Inr fs' \<Longrightarrow>
     fs' = fs @ [(p, Dir)] \<and> lookup fs p = None \<and> is_dir fs (butlast p)"
  by (auto simp: os_mkdir_def path_exists_def is_dir_def split: if_splits option.splits node.splits)

lemma os_mkdir_keep:
  "os_mkdir fs p = Inr fs' \<Longrightarrow> lookup fs q = Some n \<Longrightarrow> lookup fs' q = Some n"
  by (auto dest!: os_mkdir_Inr simp: lookup_append_keep)

lemma os_mkdir_is_dir:
  "os_mkdir fs p = Inr fs' \<Longrightarrow> is_dir fs' p \<and> is_dir fs' (butlast p)"
  by (auto dest!: os_mkdir_Inr simp: is_dir_def lookup_append_keep lookup_append_same)

lemma os_mkdir_parent_ok:
  assumes "os_mkdir fs p = Inr fs'"
    and "path_exists fs q \<longrightarrow> is_dir fs (butlast q)"
    and "path_exists fs' q"
  shows "is_dir fs' (butlast q)"
proof -
  from assms(1) have eq: "fs' = fs @ [(p, Dir)]" and par: "is_dir fs (butlast p)"
    by (auto dest: os_mkdir_Inr)
  from assms(3) obtain n where "lookup fs' q = Some n"
    by (auto simp: path_exists_def)
  with eq have "lookup fs q = Some n \<or> q = p"
    by (auto dest: lookup_append_cases)
  with assms(2) par have "is_dir fs (butlast q)"
    by (auto simp: path_exists_def)
  with eq show ?thesis
    by (simp add: is_dir_def lookup_append_keep)
qed

lemma mkdir_parents_keep:
  "mkdir_parents fs p = Inr fs' \<Longrightarrow> lookup fs q = Some n \<Longrightarrow> lookup fs' q = Some n"
proof (induction fs p arbitrary: fs' rule: mkdir_parents.induct)
  case (1 fs p)
  show ?case
  proof (cases "os_mkdir fs p")
    case (Inr a)
    with 1 show ?thesis by (auto simp: mkdir_parents.simps[of fs p] dest: os_mkdir_keep)
  next
    case (Inl e)
    with 1 show ?thesis
      by (auto simp: mkdir_parents.simps[of fs p] split: if_splits sum.splits dest: os_mkdir_keep)
  qed
qed

lemma mkdir_parents_is_dir:
  "mkdir_parents fs p = Inr fs' \<Longrightarrow> is_dir fs' p"
  by (subst (asm) mkdir_parents.simps)
     (auto split: if_splits sum.splits dest: os_mkdir_is_dir)

lemma mkdir_parents_parent_ok:
  "mkdir_parents fs p = Inr fs' \<Longrightarrow> path_exists fs q \<longrightarrow> is_dir fs (butlast q) \<Longrightarrow>
     path_exists fs' q \<longrightarrow> is_dir fs' (butlast q)"
proof (induction fs p arbitrary: fs' rule: mkdir_parents.induct)
  case (1 fs p)
  show ?case
  proof (cases "os_mkdir fs p")
    case (Inr a)
    with 1 show ?thesis
      by (auto simp: mkdir_parents.simps[of fs p] dest: os_mkdir_parent_ok)
  next
    case (Inl e)
    with 1 show ?thesis
      by (auto simp: mkdir_parents.simps[of fs p] split: if_splits sum.splits
               dest: os_mkdir_parent_ok)
  qed
qed

lemma mkdir_parents_existing:
  "is_dir fs p \<Longrightarrow> mkdir_parents fs p = Inr fs"
  by (subst mkdir_parents.simps) (auto simp: os_mkdir_def path_exists_def is_dir_def)

lemma setup_loop_keep:
  "setup_loop ds w = Inr w' \<Longrightarrow> lookup (disk w) q = Some n \<Longrightarrow> lookup (disk w') q = Some n"
  by (induction ds arbitrary: w)
     (auto simp: print_def split: sum.splits dest: mkdir_parents_keep)

lemma setup_loop_parent_ok:
  "setup_loop ds w = Inr w' \<Longrightarrow> path_exists (disk w) q \<longrightarrow> is_dir (disk w) (butlast q) \<Longrightarrow>
     path_exists (disk w') q \<longrightarrow> is_dir (disk w') (butlast q)"
proof (induction ds arbitrary: w)
  case Nil
  then show ?case by simp
next
  case (Cons d ds)
  from Cons.prems(1) obtain fs1 where
    m: "mkdir_parents (disk w) d = Inr fs1" and
    r: "setup_loop ds (print (MsgDirCreated d) (w\<lparr>disk := fs1\<rparr>)) = Inr w'"
    by (auto split: sum.splits)
  from m Cons.prems(2) have "path_exists fs1 q \<longrightarrow> is_dir fs1 (butlast q)"
    by (rule mkdir_parents_parent_ok)
  then show ?case
    using Cons.IH [OF r] by (simp add: print_def)
qed

lemma setup_loop_is_dir:
  "setup_loop ds w = Inr w' \<Longrightarrow> d \<in> set ds \<Longrightarrow> is_dir (disk w') d"
proof (induction ds arbitrary: w)
  case Nil
  then show ?case by simp
next
  case (Cons a ds)
  from Cons.prems(1) obtain fs1 where
    m: "mkdir_parents (disk w) a = Inr fs1" and
    r: "setup_loop ds (print (MsgDirCreated a) (w\<lparr>disk := fs1\<rparr>)) = Inr w'"
    by (auto split: sum.splits)
  show ?case
  proof (cases "d = a")
    case True
    from m have "lookup fs1 a = Some Dir"
      by (auto dest: mkdir_parents_is_dir simp: is_dir_def)
    with r have "lookup (disk w') a = Some Dir"
      by (auto dest!: setup_loop_keep [where q = a and n = Dir] simp: print_def)
    with True show ?thesis by (simp add: is_dir_def)
  next
    case False
    with Cons.prems(2) have "d \<in> set ds" by simp
    with Cons.IH [OF r] show ?thesis by simp
  qed
qed

lemma setup_loop_existing:
  "\<forall>d\<in>set ds. is_dir (disk w) d \<Longrightarrow>
     setup_loop ds w = Inr (w\<lparr>out := out w @ map MsgDirCreated ds\<rparr>)"
  by (induction ds arbitrary: w) (auto simp: mkdir_parents_existing print_def)

text \<open>
  Claim C9.  Directory setup is idempotent: when a run of \<open>setup_directories\<close>
  succeeds, a second run succeeds as well and leaves the file system as the first
  left it; after the first run every directory of the fixed list is a directory,
  and so is its parent (provided the directory, if it was there before, had a
  directory as its parent).  A run on a file system where the directories exist
  already never fails and changes nothing on disk.
\<close>

theorem setup_directories_idempotent:
  "(setup_directories w = Inr w1 \<longrightarrow>
      setup_directories w1 = Inr (w1\<lparr>out := out w1 @ map MsgDirCreated dirs\<rparr>) \<and>
      (\<forall>d\<in>set dirs. is_dir (disk w1) d \<and>
         ((path_exists (disk w) d \<longrightarrow> is_dir (disk w) (butlast d)) \<longrightarrow>
            is_dir (disk w1) (butlast d)))) \<and>
   ((\<forall>d\<in>set dirs. is_dir (disk w) d) \<longrightarrow>
      setup_directories w = Inr (w\<lparr>out := out w @ map MsgDirCreated dirs\<rparr>))"
proof (intro conjI impI ballI)
  assume s: "setup_directories w = Inr w1"
  then have d: "\<forall>d\<in>set dirs. is_dir (disk w1) d"
    by (auto simp: setup_directories_def dest: setup_loop_is_dir)
  then show "setup_directories w1 = Inr (w1\<lparr>out := out w1 @ map MsgDirCreated dirs\<rparr>)"
    unfolding setup_directories_def by (rule setup_loop_existing)
  fix d assume "d \<in> set dirs"
  with d show "is_dir (disk w1) d" by simp
  assume "path_exists (disk w) d \<longrightarrow> is_dir (disk w) (butlast d)"
  with s have "path_exists (disk w1) d \<longrightarrow> is_dir (disk w1) (butlast d)"
    unfolding setup_directories_def by (rule setup_loop_parent_ok)
  with \<open>is_dir (disk w1) d\<close> show "is_dir (disk w1) (butlast d)"
    by (simp add: is_dir_def path_exists_def)
next
  assume "\<forall>d\<in>set dirs. is_dir (disk w) d"
  then show "setup_directories w = Inr (w\<lparr>out := out w @ map MsgDirCreated dirs\<rparr>)"
    unfolding setup_directories_def by (rule setup_loop_existing)
qed


theorem setup_directories_idempotent_witness:
  "setup_directories world0 = Inr world1 \<and>
   setup_directories world1 = Inr (world1\<lparr>out := out world1 @ map MsgDirCreated dirs\<rparr>) \<and>
   is_dir (disk world1) [''model_zoo'', ''swinir''] \<and> is_dir (disk world1) [''model_zoo''] \<and>
   is_dir (disk world1) [''testsets'', ''project_images''] \<and> is_dir (disk world1) [''testsets''] \<and>
   is_dir (disk world1) [''results'']"
proof -
  have a: "setup_directories world0 = Inr world1" by code_simp
  have b: "\<forall>d\<in>set dirs. \<not> path_exists (disk world0) d" by code_simp
  have c: "\<forall>d\<in>set dirs. is_dir (disk world1) d" by code_simp
  from setup_directories_idempotent [of world0 world1] a b
  have "setup_directories world1 = Inr (world1\<lparr>out := out world1 @ map MsgDirCreated dirs\<rparr>)"
    and "\<forall>d\<in>set dirs. is_dir (disk world1) d \<and> is_dir (disk world1) (butlast d)"
    by auto
  moreover from setup_directories_idempotent [of world1 world1] c
  have "setup_directories world1 = Inr (world1\<lparr>out := out world1 @ map MsgDirCreated dirs\<rparr>)"
    by blast
  ultimately show ?thesis using a by (simp add: dirs_def)
qed

section \<open>download_models: skipping, failing, interrupted\<close>

lemma lookup_update:
  "k \<noteq> [] \<Longrightarrow> lookup (AList.update k v fs) q = (if q = k then Some v else lookup fs q)"
  by (simp add: lookup_def update_conv')

lemma model_path_nonempty [simp]: "model_path f \<noteq> []"
  by (simp add: model_path_def)

lemma model_path_inj [simp]: "model_path f = model_path g \<longleftrightarrow> f = g"
  by (simp add: model_path_def)

lemma open_wb_lookup:
  "open_wb fs p = Inr fs1 \<Longrightarrow> p \<noteq> [] \<Longrightarrow>
     lookup fs1 q = (if q = p then Some (File []) else lookup fs q)"
  by (auto simp: open_wb_def lookup_update split: option.splits node.splits)

lemma file_write_lookup:
  "p \<noteq> [] \<Longrightarrow> lookup fs p = Some (File c) \<Longrightarrow>
     lookup (file_write fs p d) q = (if q = p then Some (File (c @ d)) else lookup fs q)"
  by (simp add: file_write_def lookup_update)

lemma write_chunks_lookup:
  "p \<noteq> [] \<Longrightarrow> lookup fs p = Some (File c) \<Longrightarrow>
     lookup (write_chunks fs p chunks) q =
       (if q = p then Some (File (c @ concat chunks)) else lookup fs q)"
proof (induction chunks arbitrary: fs c)
  case Nil
  then show ?case by simp
next
  case (Cons d chunks)
  from Cons.prems have "lookup (file_write fs p d) p = Some (File (c @ d))"
    by (simp add: file_write_lookup)
  from Cons.IH [OF Cons.prems(1) this] Cons.prems show ?case
    by (simp add: file_write_lookup)
qed

text \<open>What the body of the try does to the world.\<close>

lemma fetch_reqs: "reqs (fst (fetch e f w)) = reqs w @ [base_url @ f]"
  by (simp add: fetch_def Let_def print_def split: http_result.splits sum.splits)

lemma fetch_calls_inp: "calls (fst (fetch e f w)) = calls w \<and> inp (fst (fetch e f w)) = inp w"
  by (simp add: fetch_def Let_def print_def split: http_result.splits sum.splits)

lemma fetch_lookup_other:
  "q \<noteq> model_path f \<Longrightarrow> lookup (disk (fst (fetch e f w))) q = lookup (disk w) q"
  by (auto simp: fetch_def Let_def print_def open_wb_lookup write_chunks_lookup
           split: http_result.splits sum.splits)

lemma fetch_fails:
  "net_fails (net e (base_url @ f)) \<Longrightarrow> snd (fetch e f w) \<noteq> None"
  by (auto simp: fetch_def Let_def net_fails_def split: http_result.splits sum.splits)

lemma fetch_broken:
  assumes "net e (base_url @ f) = Response status chunks True"
    and "\<not> (400 \<le> status \<and> status < 600)"
    and "open_wb (disk w) (model_path f) = Inr fs1"
  shows "snd (fetch e f w) = Some ChunkedEncodingError"
    and "lookup (disk (fst (fetch e f w))) (model_path f) = Some (File (concat chunks))"
  using assms
  by (auto simp: fetch_def Let_def open_wb_lookup write_chunks_lookup)

lemma download_loop_missing:
  "\<not> path_exists (disk w) (model_path g) \<Longrightarrow>
     download_loop e ((name, g) # ms) w =
       (case snd (fetch e g (print (MsgDownloading g) w)) of
          None \<Rightarrow> download_loop e ms (fst (fetch e g (print (MsgDownloading g) w)))
        | Some x \<Rightarrow>
            (print (MsgDownloadFailed g x) (fst (fetch e g (print (MsgDownloading g) w))), False))"
  by (cases "fetch e g (print (MsgDownloading g) w)") (auto split: option.splits)

lemma download_loop_lookup_existing:
  "path_exists (disk w) (model_path f) \<Longrightarrow>
     lookup (disk (fst (download_loop e ms w))) (model_path f) = lookup (disk w) (model_path f)"
proof (induction ms arbitrary: w)
  case Nil
  then show ?case by simp
next
  case (Cons m ms)
  obtain name g where m: "m = (name, g)" by (cases m)
  show ?case
  proof (cases "path_exists (disk w) (model_path g)")
    case True
    with Cons m show ?thesis by (simp add: print_def)
  next
    case False
    with Cons.prems have ne: "model_path f \<noteq> model_path g" by auto
    let ?v = "print (MsgDownloading g) w"
    have keep: "lookup (disk (fst (fetch e g ?v))) (model_path f) = lookup (disk w) (model_path f)"
      using ne by (simp add: fetch_lookup_other print_def)
    show ?thesis
    proof (cases "snd (fetch e g ?v)")
      case None
      then have eq: "download_loop e (m # ms) w = download_loop e ms (fst (fetch e g ?v))"
        using False m by (simp add: download_loop_missing del: download_loop.simps)
      have "path_exists (disk (fst (fetch e g ?v))) (model_path f)"
        using keep Cons.prems by (simp add: path_exists_def)
      from Cons.IH [OF this] keep eq show ?thesis by simp
    next
      case (Some x)
      then have "download_loop e (m # ms) w = (print (MsgDownloadFailed g x) (fst (fetch e g ?v)), False)"
        using False m by (simp add: download_loop_missing del: download_loop.simps)
      with keep show ?thesis by (simp add: print_def)
    qed
  qed
qed

lemma download_loop_requests:
  "\<exists>X. reqs (fst (download_loop e ms w)) = reqs w @ X \<and>
       (\<forall>f. path_exists (disk w) (model_path f) \<longrightarrow> base_url @ f \<notin> set X)"
proof (induction ms arbitrary: w)
  case Nil
  then show ?case by simp
next
  case (Cons m ms)
  obtain name g where m: "m = (name, g)" by (cases m)
  show ?case
  proof (cases "path_exists (disk w) (model_path g)")
    case True
    with Cons [of "print (MsgModelExists g) w"] m show ?thesis by (simp add: print_def)
  next
    case False
    let ?v = "print (MsgDownloading g) w"
    let ?w' = "fst (fetch e g ?v)"
    have r: "reqs ?w' = reqs w @ [base_url @ g]"
      by (simp add: fetch_reqs print_def)
    have keep: "path_exists (disk ?w') (model_path f)" if "path_exists (disk w) (model_path f)" for f
    proof -
      from that False have "model_path f \<noteq> model_path g" by auto
      then have "lookup (disk ?w') (model_path f) = lookup (disk w) (model_path f)"
        by (simp add: fetch_lookup_other print_def)
      with that show ?thesis by (simp add: path_exists_def)
    qed
    have ne: "base_url @ f \<noteq> base_url @ g" if "path_exists (disk w) (model_path f)" for f
      using that False by auto
    show ?thesis
    proof (cases "snd (fetch e g ?v)")
      case None
      then have eq: "download_loop e (m # ms) w = download_loop e ms ?w'"
        using False m by (simp add: download_loop_missing del: download_loop.simps)
      from Cons [of ?w'] obtain X where
        X: "reqs (fst (download_loop e ms ?w')) = reqs ?w' @ X"
           "\<forall>f. path_exists (disk ?w') (model_path f) \<longrightarrow> base_url @ f \<notin> set X"
        by blast
      show ?thesis
      proof (intro exI conjI allI impI)
        show "reqs (fst (download_loop e (m # ms) w)) = reqs w @ ((base_url @ g) # X)"
          using eq X(1) r by simp
        fix f assume "path_exists (disk w) (model_path f)"
        with X(2) keep ne show "base_url @ f \<notin> set ((base_url @ g) # X)" by auto
      qed
    next
      case (Some x)
      then have "download_loop e (m # ms) w = (print (MsgDownloadFailed g x) ?w', False)"
        using False m by (simp add: download_loop_missing del: download_loop.simps)
      with r ne show ?thesis by (auto simp: print_def)
    qed
  qed
qed

lemma download_loop_no_request:
  "path_exists (disk w) (model_path f) \<Longrightarrow>
     base_url @ f \<notin> set (new_requests w (fst (download_loop e ms w)))"
  using download_loop_requests [of e ms w] by (auto simp: new_requests_def)

lemma download_loop_calls_inp:
  "calls (fst (download_loop e ms w)) = calls w \<and> inp (fst (download_loop e ms w)) = inp w"
proof (induction ms arbitrary: w)
  case Nil
  then show ?case by simp
next
  case (Cons m ms)
  obtain name g where m: "m = (name, g)" by (cases m)
  have f: "calls (fst (fetch e g (print (MsgDownloading g) w))) = calls w \<and>
           inp (fst (fetch e g (print (MsgDownloading g) w))) = inp w"
    by (simp add: fetch_calls_inp print_def)
  show ?case
  proof (cases "path_exists (disk w) (model_path g)")
    case True
    with Cons [of "print (MsgModelExists g) w"] m show ?thesis by (simp add: print_def)
  next
    case False
    with Cons [of "fst (fetch e g (print (MsgDownloading g) w))"] f m show ?thesis
      by (simp add: download_loop_missing print_def del: download_loop.simps split: option.splits)
  qed
qed

lemma download_loop_fails:
  "(name, f) \<in> set ms \<Longrightarrow> \<not> path_exists (disk w) (model_path f) \<Longrightarrow>
     net_fails (net e (base_url @ f)) \<Longrightarrow> snd (download_loop e ms w) = False"
proof (induction ms arbitrary: w)
  case Nil
  then show ?case by simp
next
  case (Cons m ms)
  obtain n g where m: "m = (n, g)" by (cases m)
  show ?case
  proof (cases "g = f")
    case True
    with Cons.prems m fetch_fails [of e f "print (MsgDownloading f) w"] show ?thesis
      by (auto simp: download_loop_missing simp del: download_loop.simps split: option.splits)
  next
    case False
    with Cons.prems m have mem: "(name, f) \<in> set ms" by auto
    show ?thesis
    proof (cases "path_exists (disk w) (model_path g)")
      case True
      with Cons.IH [OF mem, of "print (MsgModelExists g) w"] Cons.prems m show ?thesis
        by (simp add: print_def)
    next
      case ne: False
      let ?w' = "fst (fetch e g (print (MsgDownloading g) w))"
      have "lookup (disk ?w') (model_path f) = lookup (disk w) (model_path f)"
        using False by (simp add: fetch_lookup_other print_def)
      with Cons.prems have "\<not> path_exists (disk ?w') (model_path f)"
        by (simp add: path_exists_def)
      from Cons.IH [OF mem this Cons.prems(3)] ne m show ?thesis
        by (simp add: download_loop_missing del: download_loop.simps split: option.splits)
    qed
  qed
qed

lemma setup_loop_calls_inp:
  "setup_loop ds w = Inr w' \<Longrightarrow> calls w' = calls w \<and> inp w' = inp w"
  by (induction ds arbitrary: w) (auto simp: print_def split: sum.splits)

lemma start_calls_inp:
  "start w = Inr w1 \<Longrightarrow> calls w1 = calls w \<and> inp w1 = inp w"
  by (auto simp: start_def setup_directories_def print_def dest!: setup_loop_calls_inp)

text \<open>
  Claim C4.  When the loop of \<open>download_models\<close> comes to a weight file that
  exists at its expected path, it prints that the model is there and goes on with
  the next file: nothing but the existence of the path is looked at (the node may
  be a file of any content, or a directory).  In a whole run of
  \<open>download_models\<close> no request is issued for the URL of a file that existed
  when the run began.
\<close>

theorem download_skips_existing:
  "path_exists (disk w) (model_path filename) \<Longrightarrow>
     download_loop e ((name, filename) # rest) w =
       download_loop e rest (print (MsgModelExists filename) w) \<and>
     base_url @ filename \<notin> set (new_requests w (fst (download_models e w)))"
  by (simp add: download_models_def download_loop_no_request)

theorem download_skips_existing_witness:
  "path_exists (disk world2) (model_path weights15) \<and>
   base_url @ weights15 \<notin> set (new_requests world2 (fst (download_models offline world2))) \<and>
   new_requests world2 (fst (download_models offline world2)) = [base_url @ weights25]"
proof -
  have a: "path_exists (disk world2) (model_path weights15)" by code_simp
  have b: "new_requests world2 (fst (download_models offline world2)) = [base_url @ weights25]"
    by code_simp
  from download_skips_existing [OF a, of offline "''noise15''" "[]"] a b show ?thesis by simp
qed

text \<open>
  Claim C5.  If the request for one of the three weight files fails (no connection,
  a status from 400 to 599, or a stream that breaks), \<open>download_models\<close>
  returns false; wherever the loop meets that file, the files after it are
  abandoned (the result is that of the loop on this file alone, and the only new
  request is the one that failed).  \<open>main\<close> then prints the fatal message and
  returns: it has run no child process and read no input.
\<close>

theorem download_error_is_fatal:
  assumes "start w = Inr w1"
    and "(name, filename) \<in> set models"
    and "\<not> path_exists (disk w1) (model_path filename)"
    and "net_fails (net e (base_url @ filename))"
  shows "snd (download_models e (print MsgStepModels w1)) = False \<and>
         main ensemble_code e w =
           Inr (print MsgDownloadFatal (fst (download_models e (print MsgStepModels w1)))) \<and>
         calls (fst (download_models e (print MsgStepModels w1))) = calls w \<and>
         inp (fst (download_models e (print MsgStepModels w1))) = inp w \<and>
         (\<forall>rest v. \<not> path_exists (disk v) (model_path filename) \<longrightarrow>
            download_loop e ((name, filename) # rest) v =
              (fst (download_loop e [(name, filename)] v), False) \<and>
            new_requests v (fst (download_loop e ((name, filename) # rest) v)) =
              [base_url @ filename])"
proof -
  let ?v = "print MsgStepModels w1"
  have f: "snd (download_models e ?v) = False"
    unfolding download_models_def
    using assms(2-4) by (intro download_loop_fails [where name = name and f = filename])
      (simp_all add: print_def)
  then have m: "main ensemble_code e w = Inr (print MsgDownloadFatal (fst (download_models e ?v)))"
    using assms(1) by (cases "download_models e ?v") (auto simp: main_def)
  have c: "calls (fst (download_models e ?v)) = calls w \<and> inp (fst (download_models e ?v)) = inp w"
    using start_calls_inp [OF assms(1)] download_loop_calls_inp [of e models ?v]
    by (simp add: download_models_def print_def)
  have r: "download_loop e ((name, filename) # rest) v =
              (fst (download_loop e [(name, filename)] v), False) \<and>
           new_requests v (fst (download_loop e ((name, filename) # rest) v)) =
              [base_url @ filename]"
    if "\<not> path_exists (disk v) (model_path filename)" for rest v
  proof -
    from fetch_fails [OF assms(4), of "print (MsgDownloading filename) v"]
    obtain x where x: "snd (fetch e filename (print (MsgDownloading filename) v)) = Some x"
      by auto
    with that show ?thesis
      by (simp add: download_loop_missing new_requests_def fetch_reqs print_def
               del: download_loop.simps)
  qed
  from f m c r show ?thesis by blast
qed

theorem download_error_is_fatal_witness:
  "start world0 = Inr (world1\<lparr>out := [MsgBanner, MsgRule 60, MsgStepDirs] @ out world1\<rparr>) \<and>
   main [] offline world0 =
     Inr (world1\<lparr>out := [MsgBanner, MsgRule 60, MsgStepDirs] @ out world1 @
                         [MsgStepModels, MsgDownloading weights15,
                          MsgDownloadFailed weights15 ConnectionError, MsgDownloadFatal],
                 reqs := [base_url @ weights15]\<rparr>)"
proof -
  let ?w1 = "world1\<lparr>out := [MsgBanner, MsgRule 60, MsgStepDirs] @ out world1\<rparr>"
  have a: "start world0 = Inr ?w1" by code_simp
  have b: "(''noise15'', weights15) \<in> set models" by code_simp
  have c: "\<not> path_exists (disk ?w1) (model_path weights15)" by code_simp
  have d: "net_fails (net offline (base_url @ weights15))" by code_simp
  have e: "print MsgDownloadFatal (fst (download_models offline (print MsgStepModels ?w1))) =
       world1\<lparr>out := [MsgBanner, MsgRule 60, MsgStepDirs] @ out world1 @
                         [MsgStepModels, MsgDownloading weights15,
                          MsgDownloadFailed weights15 ConnectionError, MsgDownloadFatal],
                 reqs := [base_url @ weights15]\<rparr>"
    by code_simp
  from download_error_is_fatal [OF a b c d, of "[]"] a e show ?thesis by simp
qed

text \<open>
  Claim C3.  If the stream of a download breaks after the weight file was opened
  for writing, \<open>download_models\<close> returns false and the file stays on disk at
  the model path with the chunks received so far (nothing removes it).  On any
  later run, from a world with that disk, the file is reported as present and
  skipped, no request is issued for it, and its truncated content is still there
  when the run ends: neither size nor checksum is looked at, whatever the chunks
  were.
\<close>

theorem interrupted_download_accepted:
  assumes "\<not> path_exists (disk w) (model_path filename)"
    and "open_wb (disk w) (model_path filename) = Inr fs1"
    and "net e (base_url @ filename) = Response status chunks True"
    and "\<not> (400 \<le> status \<and> status < 600)"
    and "w' = fst (download_loop e ((name, filename) # rest) w)"
  shows "snd (download_loop e ((name, filename) # rest) w) = False \<and>
         lookup (disk w') (model_path filename) = Some (File (concat chunks)) \<and>
         (\<forall>e' v rest'. disk v = disk w' \<longrightarrow>
            download_loop e' ((name, filename) # rest') v =
              download_loop e' rest' (print (MsgModelExists filename) v) \<and>
            base_url @ filename \<notin> set (new_requests v (fst (download_models e' v))) \<and>
            lookup (disk (fst (download_models e' v))) (model_path filename) =
              Some (File (concat chunks)))"
proof -
  let ?v = "print (MsgDownloading filename) w"
  have o: "open_wb (disk ?v) (model_path filename) = Inr fs1"
    using assms(2) by (simp add: print_def)
  note fb = fetch_broken [OF assms(3) assms(4) o]
  have dl: "download_loop e ((name, filename) # rest) w =
              (print (MsgDownloadFailed filename ChunkedEncodingError) (fst (fetch e filename ?v)), False)"
    using assms(1) fb(1) by (simp add: download_loop_missing del: download_loop.simps)
  then have s: "snd (download_loop e ((name, filename) # rest) w) = False" by simp
  have l: "lookup (disk w') (model_path filename) = Some (File (concat chunks))"
    using dl fb(2) assms(5) by (simp add: print_def)
  have n: "download_loop e' ((name, filename) # rest') v =
              download_loop e' rest' (print (MsgModelExists filename) v) \<and>
            base_url @ filename \<notin> set (new_requests v (fst (download_models e' v))) \<and>
            lookup (disk (fst (download_models e' v))) (model_path filename) =
              Some (File (concat chunks))"
    if "disk v = disk w'" for e' v rest'
  proof -
    from that l have ex: "path_exists (disk v) (model_path filename)"
      by (simp add: path_exists_def)
    from ex that l show ?thesis
      by (simp add: download_models_def download_loop_no_request download_loop_lookup_existing)
  qed
  from s l n show ?thesis by blast
qed

theorem interrupted_download_accepted_witness:
  "download_models flaky world1 = (world3, False) \<and>
   lookup (disk world3) (model_path weights15) = Some (File ''abcde'') \<and>
   base_url @ weights15 \<notin> set (new_requests world3 (fst (download_models flaky world3))) \<and>
   lookup (disk (fst (download_models flaky world3))) (model_path weights15) = Some (File ''abcde'')"
proof -
  have a: "\<not> path_exists (disk world1) (model_path weights15)" by code_simp
  have b: "open_wb (disk world1) (model_path weights15) =
             Inr (disk world1 @ [(model_path weights15, File [])])" by code_simp
  have c: "net flaky (base_url @ weights15) = Response 200 [''abc'', ''de''] True" by code_simp
  have d: "\<not> (400 \<le> (200::nat) \<and> (200::nat) < 600)" by simp
  have e: "download_models flaky world1 = (world3, False)" by code_simp
  have f: "world3 = fst (download_loop flaky ((''noise15'', weights15) # tl models) world1)"
    by code_simp
  have g: "concat [''abc'', ''de''] = ''abcde''" by simp
  from interrupted_download_accepted [OF a b c d f] e g show ?thesis by auto
qed

section \<open>prepare_test_images: the extension filter\<close>











section \<open>run_denoising: the result mapping, failures, renaming\<close>

lemma new_dir_simps [simp]:
  "new_dir n \<noteq> []" "old_dir n \<noteq> []" "old_dir n \<noteq> new_dir n"
  "butlast (new_dir n) = [''results'']"
  "\<not> prefix (old_dir n) (new_dir n)"
  "\<not> prefix (new_dir n) (old_dir n)"
  "\<not> prefix (new_dir n) (old_dir n @ q)"
  "\<not> prefix (old_dir n) (new_dir n @ q)"
  "\<not> prefix (new_dir n) [''results'']"
  "length (new_dir n) = 2" "length (old_dir n) = 2"
  by (simp_all add: new_dir_def old_dir_def)

lemma lookup_filter_prefix:
  "p \<noteq> [] \<Longrightarrow>
     lookup (filter (\<lambda>(q, n). \<not> prefix p q) fs) q = (if prefix p q then None else lookup fs q)"
  by (induction fs) (auto simp: lookup_def)

lemma filter_prefix_keys:
  "\<forall>(k, v)\<in>set (filter (\<lambda>(q, n). \<not> prefix p q) fs). \<not> prefix p k"
  by auto

lemma lookup_rename_tree:
  assumes "\<forall>(k, v)\<in>set fs. \<not> prefix dst k"
    and "dst \<noteq> []" and "src \<noteq> []"
    and "\<not> prefix src dst"
  shows "lookup (rename_tree fs src dst) p =
           (if prefix dst p then lookup fs (src @ drop (length dst) p)
            else if prefix src p then None else lookup fs p)"
  using assms(1)
proof (induction fs)
  case Nil
  with assms show ?case by (auto simp: rename_tree_def lookup_def)
next
  case (Cons kv fs)
  obtain k v where kv: "kv = (k, v)" by (cases kv)
  from Cons.prems kv have nk: "\<not> prefix dst k" and rest: "\<forall>(k, v)\<in>set fs. \<not> prefix dst k"
    by auto
  note IH = Cons.IH [OF rest]
  have rt: "rename_tree ((k, v) # fs) src dst =
              (if prefix src k then dst @ drop (length src) k else k, v) # rename_tree fs src dst"
    by (simp add: rename_tree_def)
  show ?case
  proof (cases "prefix dst p")
    case True
    then obtain r where p: "p = dst @ r" by (auto simp: prefix_def)
    have "(if prefix src k then dst @ drop (length src) k else k) = p \<longleftrightarrow> k = src @ r"
      using nk p by (auto simp: prefix_def)
    with True p IH assms(2,3) show ?thesis
      by (auto simp: rt lookup_def kv)
  next
    case False
    show ?thesis
    proof (cases "prefix src p")
      case True
      have "(if prefix src k then dst @ drop (length src) k else k) \<noteq> p"
      proof (cases "prefix src k")
        case sk: True
        have "prefix dst (dst @ drop (length src) k)" by simp
        with False sk show ?thesis by auto
      next
        case False
        with True show ?thesis by auto
      qed
      with True False IH show ?thesis
        by (auto simp: rt lookup_def kv)
    next
      case ns: False
      have "(if prefix src k then dst @ drop (length src) k else k) = p \<longleftrightarrow> k = p"
      proof (cases "prefix src k")
        case sk: True
        have "prefix dst (dst @ drop (length src) k)" by simp
        with False sk ns show ?thesis by auto
      next
        case False
        then show ?thesis by simp
      qed
      with ns False IH show ?thesis
        by (auto simp: rt lookup_def kv)
    qed
  qed
qed

lemma move_fresh:
  assumes "path_exists fs src" "\<not> path_exists fs dst" "src \<noteq> dst" "\<not> prefix src dst"
    "is_dir fs (butlast dst)"
  shows "move fs src dst = Inr (rename_tree fs src dst)"
proof -
  from assms(2) have "\<not> is_dir fs dst" "lookup fs dst = None"
    by (auto simp: is_dir_def path_exists_def)
  moreover from assms(1) obtain s where "lookup fs src = Some s"
    by (auto simp: path_exists_def)
  ultimately show ?thesis
    using assms(3-5) by (simp add: move_def os_rename_def)
qed

lemma denoise_level_success:
  assumes p: "proc e (cmd noise use_tile) (disk w) = Completed 0 stderr fs1"
    and o: "path_exists fs1 (old_dir noise)"
    and r: "is_dir fs1 [''results'']"
    and n: "path_exists fs1 (new_dir noise) \<longrightarrow> is_dir fs1 (new_dir noise)"
  shows "denoise_level e use_tile noise (w, results) =
           Inr (w\<lparr>disk := renamed fs1 noise,
                   out := out w @ [MsgRunStart noise, MsgDenoiseDone (new_dir noise)],
                   calls := calls w @ [(cmd noise use_tile, 0)]\<rparr>,
                AList.update noise (new_dir noise) results)"
proof -
  let ?fs2 = "if path_exists fs1 (new_dir noise)
              then filter (\<lambda>(q, n). \<not> prefix (new_dir noise) q) fs1 else fs1"
  have rm: "(if path_exists fs1 (new_dir noise) then rmtree fs1 (new_dir noise) else Inr fs1) = Inr ?fs2"
    using n by (auto simp: rmtree_def is_dir_def)
  have a: "path_exists ?fs2 (old_dir noise)"
    using o by (simp add: path_exists_def lookup_filter_prefix)
  have b: "\<not> path_exists ?fs2 (new_dir noise)"
    by (simp add: path_exists_def lookup_filter_prefix)
  have c: "is_dir ?fs2 (butlast (new_dir noise))"
    using r by (simp add: is_dir_def lookup_filter_prefix)
  have mv: "move ?fs2 (old_dir noise) (new_dir noise) = Inr (renamed fs1 noise)"
    unfolding renamed_def by (rule move_fresh [OF a b _ _ c]) simp_all
  show ?thesis
    unfolding denoise_level_def Let_def
    by (simp add: p o rm mv print_def cong: if_cong)
qed





















text \<open>
  Claim C7.  When a run for noise level \<open>N\<close> succeeds and left its output
  directory, and \<open>results/project_denoised_noiseN\<close> is a directory from an earlier
  run, then afterwards every path below \<open>results/project_denoised_noiseN\<close> holds
  what the same path below the new output directory held, and nothing else (no
  file of the earlier directory is left); the output directory is gone under its
  old name, every other path is untouched, and the mapping has the entry for
  \<open>N\<close>.
\<close>

theorem rename_replaces_previous_result:
  assumes "proc e (cmd noise use_tile) (disk w) = Completed 0 stderr fs1"
    and "path_exists fs1 (old_dir noise)"
    and "is_dir fs1 (new_dir noise)"
    and "is_dir fs1 [''results'']"
  shows "denoise_level e use_tile noise (w, results) =
           Inr (w\<lparr>disk := renamed fs1 noise,
                   out := out w @ [MsgRunStart noise, MsgDenoiseDone (new_dir noise)],
                   calls := calls w @ [(cmd noise use_tile, 0)]\<rparr>,
                AList.update noise (new_dir noise) results) \<and>
         (\<forall>q. lookup (renamed fs1 noise) (new_dir noise @ q) = lookup fs1 (old_dir noise @ q)) \<and>
         (\<forall>q. \<not> path_exists (renamed fs1 noise) (old_dir noise @ q)) \<and>
         (\<forall>p. \<not> prefix (new_dir noise) p \<and> \<not> prefix (old_dir noise) p \<longrightarrow>
              lookup (renamed fs1 noise) p = lookup fs1 p)"
proof -
  let ?fs2 = "filter (\<lambda>(q, n). \<not> prefix (new_dir noise) q) fs1"
  from assms(3) have ex: "path_exists fs1 (new_dir noise)"
    by (simp add: is_dir_def path_exists_def)
  then have rn: "renamed fs1 noise = rename_tree ?fs2 (old_dir noise) (new_dir noise)"
    by (simp add: renamed_def)
  have keys: "\<forall>(k, v)\<in>set ?fs2. \<not> prefix (new_dir noise) k" by auto
  note lk = lookup_rename_tree [OF keys, of "old_dir noise", simplified]
  have 1: "denoise_level e use_tile noise (w, results) =
           Inr (w\<lparr>disk := renamed fs1 noise,
                   out := out w @ [MsgRunStart noise, MsgDenoiseDone (new_dir noise)],
                   calls := calls w @ [(cmd noise use_tile, 0)]\<rparr>,
                AList.update noise (new_dir noise) results)"
    using assms by (intro denoise_level_success) simp_all
  have 2: "lookup (renamed fs1 noise) (new_dir noise @ q) = lookup fs1 (old_dir noise @ q)" for q
    by (simp add: rn lk lookup_filter_prefix)
  have 3: "\<not> path_exists (renamed fs1 noise) (old_dir noise @ q)" for q
    by (simp add: rn lk path_exists_def)
  have 4: "lookup (renamed fs1 noise) p = lookup fs1 p"
    if "\<not> prefix (new_dir noise) p \<and> \<not> prefix (old_dir noise) p" for p
    using that by (simp add: rn lk lookup_filter_prefix)
  from 1 2 3 4 show ?thesis by blast
qed




theorem rename_replaces_previous_result_witness:
  "snd (projr (denoise_level stub_keep False 25 (world5, []))) = [(25, new_dir 25)] \<and>
   lookup (disk world5) (new_dir 25 @ [''stale_SwinIR.png'']) = Some (File ''previous'') \<and>
   lookup (disk (fst (projr (denoise_level stub_keep False 25 (world5, [])))))
     (new_dir 25 @ [''stale_SwinIR.png'']) = None \<and>
   lookup (disk (fst (projr (denoise_level stub_keep False 25 (world5, [])))))
     (new_dir 25 @ [''photo_SwinIR.png'']) = Some (File ''denoised'')"
proof -
  let ?fs1 = "disk world5 @ [(old_dir 25, Dir),
                (old_dir 25 @ [''photo_SwinIR.png''], File ''denoised'')]"
  have a: "proc stub_keep (cmd 25 False) (disk world5) = Completed 0 [] ?fs1" by code_simp
  have b: "path_exists ?fs1 (old_dir 25)" by code_simp
  have c: "is_dir ?fs1 (new_dir 25)" by code_simp
  have d: "is_dir ?fs1 [''results'']" by code_simp
  have e: "lookup ?fs1 (old_dir 25 @ [''stale_SwinIR.png'']) = None" by code_simp
  have f: "lookup ?fs1 (old_dir 25 @ [''photo_SwinIR.png'']) = Some (File ''denoised'')" by code_simp
  have g: "lookup (disk world5) (new_dir 25 @ [''stale_SwinIR.png'']) = Some (File ''previous'')"
    by code_simp
  note t = rename_replaces_previous_result [OF a b c d, where results = "[]"]
  from t have r: "denoise_level stub_keep False 25 (world5, []) =
           Inr (world5\<lparr>disk := renamed ?fs1 25,
                   out := out world5 @ [MsgRunStart 25, MsgDenoiseDone (new_dir 25)],
                   calls := calls world5 @ [(cmd 25 False, 0)]\<rparr>,
                AList.update 25 (new_dir 25) [])" by blast
  from t have q: "lookup (renamed ?fs1 25) (new_dir 25 @ q) = lookup ?fs1 (old_dir 25 @ q)" for q
    by blast
  show ?thesis
    unfolding r by (simp add: q e f g)
qed

section \<open>main: how it ends\<close>

lemma compare_fold_prints:
  "\<exists>ms. fold (\<lambda>(noise, result_dir) v.
               if path_exists (disk v) result_dir
               then print (MsgCompareLine noise
                             (length (glob_suffix (disk v) result_dir ''.png'')) result_dir) v
               else v) rs v = v\<lparr>out := out v @ ms\<rparr> \<and>
        PromptEnsemble \<notin> set ms \<and> MsgEnsembleCreated \<notin> set ms"
proof (induction rs arbitrary: v)
  case Nil
  have "v = v\<lparr>out := out v @ []\<rparr>" by simp
  then show ?case by (metis empty_iff empty_set fold_simps(1))
next
  case (Cons a rs)
  obtain noise d where a: "a = (noise, d)" by (cases a)
  let ?v = "if path_exists (disk v) d
            then print (MsgCompareLine noise (length (glob_suffix (disk v) d ''.png'')) d) v
            else v"
  from Cons [of ?v] obtain ms where
    ms: "fold (\<lambda>(noise, result_dir) v.
               if path_exists (disk v) result_dir
               then print (MsgCompareLine noise
                             (length (glob_suffix (disk v) result_dir ''.png'')) result_dir) v
               else v) rs ?v = ?v\<lparr>out := out ?v @ ms\<rparr>"
      "PromptEnsemble \<notin> set ms" "MsgEnsembleCreated \<notin> set ms"
    by blast
  show ?case
  proof (cases "path_exists (disk v) d")
    case True
    let ?m = "MsgCompareLine noise (length (glob_suffix (disk v) d ''.png'')) d"
    from True ms have "fold (\<lambda>(noise, result_dir) v.
               if path_exists (disk v) result_dir
               then print (MsgCompareLine noise
                             (length (glob_suffix (disk v) result_dir ''.png'')) result_dir) v
               else v) (a # rs) v = v\<lparr>out := out v @ (?m # ms)\<rparr>"
      by (simp add: a print_def)
    moreover from ms have "PromptEnsemble \<notin> set (?m # ms)" "MsgEnsembleCreated \<notin> set (?m # ms)"
      by simp_all
    ultimately show ?thesis by blast
  next
    case False
    with ms have "fold (\<lambda>(noise, result_dir) v.
               if path_exists (disk v) result_dir
               then print (MsgCompareLine noise
                             (length (glob_suffix (disk v) result_dir ''.png'')) result_dir) v
               else v) (a # rs) v = v\<lparr>out := out v @ ms\<rparr>"
      by (simp add: a)
    with ms show ?thesis by blast
  qed
qed

lemma compare_results_prints:
  "\<exists>ms. compare_results rs w = w\<lparr>out := out w @ ms\<rparr> \<and>
        PromptEnsemble \<notin> set ms \<and> MsgEnsembleCreated \<notin> set ms"
proof (cases "rs = []")
  case True
  have "w = w\<lparr>out := out w @ []\<rparr>" by simp
  with True show ?thesis unfolding compare_results_def by (metis empty_iff empty_set)
next
  case False
  let ?w1 = "print (MsgRule 50) (print MsgCompareHeader w)"
  from compare_fold_prints [of rs ?w1] obtain ms where
    ms: "fold (\<lambda>(noise, result_dir) v.
               if path_exists (disk v) result_dir
               then print (MsgCompareLine noise
                             (length (glob_suffix (disk v) result_dir ''.png'')) result_dir) v
               else v) rs ?w1 = ?w1\<lparr>out := out ?w1 @ ms\<rparr>"
      "PromptEnsemble \<notin> set ms" "MsgEnsembleCreated \<notin> set ms"
    by blast
  let ?all = "[MsgCompareHeader, MsgRule 50] @ ms @
              [MsgAdviceHeader, MsgAdvice 1, MsgAdvice 2, MsgAdvice 3]"
  from False ms(1) have "compare_results rs w = w\<lparr>out := out w @ ?all\<rparr>"
    by (simp add: compare_results_def Let_def print_def)
  moreover from ms have "PromptEnsemble \<notin> set ?all" "MsgEnsembleCreated \<notin> set ?all"
    by simp_all
  ultimately show ?thesis by blast
qed

lemma report_few_results:
  assumes "length results \<le> 1"
  shows "\<exists>ms. report code results w = Inr (w\<lparr>out := out w @ ms @ final_messages\<rparr>) \<and>
           PromptEnsemble \<notin> set ms \<and> MsgEnsembleCreated \<notin> set ms"
proof -
  from compare_results_prints [of results w] obtain ms where
    ms: "compare_results results w = w\<lparr>out := out w @ ms\<rparr>"
      "PromptEnsemble \<notin> set ms" "MsgEnsembleCreated \<notin> set ms"
    by blast
  from assms have "\<not> 1 < length results" by simp
  then have "report code results w = Inr (w\<lparr>out := out w @ ms @ final_messages\<rparr>)"
    by (simp add: report_def ms(1))
  with ms show ?thesis by blast
qed

lemma report_prints_final:
  "report code results w = Inr w' \<Longrightarrow> suffix final_messages (out w')"
  by (auto simp: report_def Let_def suffix_def split: sum.splits if_splits)

text \<open>
  Claim C10.  When \<open>main\<close> has come through to \<open>run_denoising\<close> and the mapping
  that returns has fewer than two entries, \<open>main\<close> ends in the world
  \<open>run_denoising\<close> left, with nothing but messages added: no line of input is
  read, nothing is written to disk (so no \<open>create_ensemble.py\<close>), and neither the
  question about the ensemble script nor the message that it was created is among
  the messages.
\<close>

theorem ensemble_needs_two_results:
  assumes "start w = Inr w1"
    and "download_models e (print MsgStepModels w1) = (w2, True)"
    and "prepare_test_images e (print MsgStepImages w2) = Inr (w3, True)"
    and "choose_noise_levels w3 = Inr (noise_levels, w4)"
    and "input PromptTile w4 = Inr (l, w5)"
    and "run_denoising e noise_levels (lower l = ''y'') (print (MsgStart noise_levels) w5) =
           Inr (w6, results)"
    and "length results \<le> 1"
  shows "\<exists>ms. main ensemble_code e w = Inr (w6\<lparr>out := out w6 @ ms @ final_messages\<rparr>) \<and>
           PromptEnsemble \<notin> set ms \<and> MsgEnsembleCreated \<notin> set ms"
proof -
  have "main ensemble_code e w = report ensemble_code results w6"
    using assms(1-6) by (simp add: main_def)
  with report_few_results [OF assms(7), of ensemble_code w6] show ?thesis by simp
qed

text \<open>
  Claim C8, as the code has it.  Once the directories are set up: if the download
  fails, \<open>main\<close> prints the fatal message and returns; if the download succeeds
  and no image is found, it prints that and returns; and if images are found and
  \<open>main\<close> returns at all, its output ends with the closing messages, whatever
  the child processes did.  (It does not return when an exception escapes: see the
  counterexample.)
\<close>

theorem main_exit_behaviour:
  assumes "start w = Inr w1"
    and "download_models e (print MsgStepModels w1) = (w2, downloaded)"
  shows "(\<not> downloaded \<longrightarrow> main ensemble_code e w = Inr (print MsgDownloadFatal w2)) \<and>
         (downloaded \<and> prepare_test_images e (print MsgStepImages w2) = Inr (w3, False) \<longrightarrow>
            main ensemble_code e w = Inr (print MsgNoImages w3)) \<and>
         (downloaded \<and> prepare_test_images e (print MsgStepImages w2) = Inr (w3, True) \<and>
          main ensemble_code e w = Inr w' \<longrightarrow>
            suffix final_messages (out w'))"
proof (intro conjI impI)
  assume "\<not> downloaded"
  with assms show "main ensemble_code e w = Inr (print MsgDownloadFatal w2)"
    by (simp add: main_def)
next
  assume "downloaded \<and> prepare_test_images e (print MsgStepImages w2) = Inr (w3, False)"
  with assms show "main ensemble_code e w = Inr (print MsgNoImages w3)"
    by (simp add: main_def)
next
  assume a: "downloaded \<and> prepare_test_images e (print MsgStepImages w2) = Inr (w3, True) \<and>
          main ensemble_code e w = Inr w'"
  then have d: downloaded
    and p: "prepare_test_images e (print MsgStepImages w2) = Inr (w3, True)"
    and m: "main ensemble_code e w = Inr w'" by blast+
  from m assms d p have "(case choose_noise_levels w3 of
            Inl x \<Rightarrow> Inl x
          | Inr (noise_levels, w4) \<Rightarrow>
              (case input PromptTile w4 of
                 Inl x \<Rightarrow> Inl x
               | Inr (l, w5) \<Rightarrow>
                   (case run_denoising e noise_levels (lower l = ''y'')
                           (print (MsgStart noise_levels) w5) of
                      Inl x \<Rightarrow> Inl x
                    | Inr (w6, results) \<Rightarrow> report ensemble_code results w6))) = Inr w'"
    by (simp add: main_def)
  then obtain results w6 where "report ensemble_code results w6 = Inr w'"
    by (auto split: sum.splits prod.splits)
  then show "suffix final_messages (out w')" by (rule report_prints_final)
qed

text \<open>
  With all weight files and an image in place, the choice \<open>3\<close> and a custom
  noise level that is no integer end \<open>main\<close> with a \<open>ValueError\<close>: neither an
  early return nor the closing messages.
\<close>

theorem main_exit_counterexample:
  "\<not> isl (start world6) \<and>
   snd (download_models no_gpu (print MsgStepModels (projr (start world6)))) \<and>
   \<not> isl (prepare_test_images no_gpu (print MsgStepImages
            (fst (download_models no_gpu (print MsgStepModels (projr (start world6))))))) \<and>
   snd (projr (prepare_test_images no_gpu (print MsgStepImages
            (fst (download_models no_gpu (print MsgStepModels (projr (start world6)))))))) \<and>
   main [] no_gpu world6 = Inl ValueError"
  by code_simp

lemma last_printed: "x = Inr (print m v) \<Longrightarrow> last (out (projr x)) = m"
  by (simp add: print_def)

lemma Inr_pair_fstI: "\<not> isl x \<Longrightarrow> fst (projr x) = a \<Longrightarrow> x = Inr (a, snd (projr x))"
  by (cases x) auto

lemma InrI: "\<not> isl x \<Longrightarrow> x = Inr (projr x)"
  by (cases x) simp_all

lemma pair_sndI: "snd x = b \<Longrightarrow> x = (fst x, b)"
  by (cases x) simp

lemma Inr_pairI: "\<not> isl x \<Longrightarrow> snd (projr x) = b \<Longrightarrow> x = Inr (fst (projr x), b)"
  by (cases x) auto

theorem main_exit_behaviour_witness:
  "last (out (projr (main [] offline world0))) = MsgDownloadFatal \<and>
   last (out (projr (main [] offline world8))) = MsgNoImages \<and>
   suffix final_messages (out (projr (main [] no_gpu world7))) \<and>
   successes (calls (projr (main [] no_gpu world7))) = 0 \<and>
   length (calls (projr (main [] no_gpu world7))) = 1"
proof -
  have a1: "start world0 = Inr (projr (start world0))"
  proof -
    have "\<not> isl (start world0)" by code_simp
    then show ?thesis by (rule InrI)
  qed
  have a2: "download_models offline (print MsgStepModels (projr (start world0))) =
              (fst (download_models offline (print MsgStepModels (projr (start world0)))), False)"
  proof -
    have "snd (download_models offline (print MsgStepModels (projr (start world0)))) = False"
      by code_simp
    then show ?thesis by (rule pair_sndI)
  qed
  have nf: "\<not> False" by simp
  from main_exit_behaviour [OF a1 a2, of "[]", THEN conjunct1] nf
  have "main [] offline world0 =
          Inr (print MsgDownloadFatal
                (fst (download_models offline (print MsgStepModels (projr (start world0))))))"
    by (rule mp)
  then have 1: "last (out (projr (main [] offline world0))) = MsgDownloadFatal"
    by (rule last_printed)
  let ?w2 = "fst (download_models offline (print MsgStepModels (projr (start world8))))"
  have b1: "start world8 = Inr (projr (start world8))"
  proof -
    have "\<not> isl (start world8)" by code_simp
    then show ?thesis by (rule InrI)
  qed
  have b2: "download_models offline (print MsgStepModels (projr (start world8))) = (?w2, True)"
  proof -
    have "snd (download_models offline (print MsgStepModels (projr (start world8)))) = True"
      by code_simp
    then show ?thesis by (rule pair_sndI)
  qed
  have b3: "prepare_test_images offline (print MsgStepImages ?w2) =
              Inr (fst (projr (prepare_test_images offline (print MsgStepImages ?w2))), False)"
  proof -
    have "\<not> isl (prepare_test_images offline (print MsgStepImages ?w2))" by code_simp
    moreover have "snd (projr (prepare_test_images offline (print MsgStepImages ?w2))) = False"
      by code_simp
    ultimately show ?thesis by (rule Inr_pairI)
  qed
  note u = main_exit_behaviour [OF b1 b2, of "[]"
         "fst (projr (prepare_test_images offline (print MsgStepImages ?w2)))"]
  from b3 have "True \<and> prepare_test_images offline (print MsgStepImages ?w2) =
              Inr (fst (projr (prepare_test_images offline (print MsgStepImages ?w2))), False)"
    by (intro conjI TrueI)
  with u [THEN conjunct2, THEN conjunct1]
  have "main [] offline world8 =
          Inr (print MsgNoImages
                (fst (projr (prepare_test_images offline (print MsgStepImages ?w2)))))"
    by (rule mp)
  then have 2: "last (out (projr (main [] offline world8))) = MsgNoImages"
    by (rule last_printed)
  let ?v2 = "fst (download_models no_gpu (print MsgStepModels (projr (start world7))))"
  have c1: "start world7 = Inr (projr (start world7))"
  proof -
    have "\<not> isl (start world7)" by code_simp
    then show ?thesis by (rule InrI)
  qed
  have c2: "download_models no_gpu (print MsgStepModels (projr (start world7))) = (?v2, True)"
  proof -
    have "snd (download_models no_gpu (print MsgStepModels (projr (start world7)))) = True"
      by code_simp
    then show ?thesis by (rule pair_sndI)
  qed
  have c3: "prepare_test_images no_gpu (print MsgStepImages ?v2) =
              Inr (fst (projr (prepare_test_images no_gpu (print MsgStepImages ?v2))), True)"
  proof -
    have "\<not> isl (prepare_test_images no_gpu (print MsgStepImages ?v2))" by code_simp
    moreover have "snd (projr (prepare_test_images no_gpu (print MsgStepImages ?v2))) = True"
      by code_simp
    ultimately show ?thesis by (rule Inr_pairI)
  qed
  have c4: "main [] no_gpu world7 = Inr (projr (main [] no_gpu world7))"
  proof -
    have "\<not> isl (main [] no_gpu world7)" by code_simp
    then show ?thesis by (rule InrI)
  qed
  note t = main_exit_behaviour [OF c1 c2, of "[]"
         "fst (projr (prepare_test_images no_gpu (print MsgStepImages ?v2)))"
         "projr (main [] no_gpu world7)"]
  from c3 c4 have "True \<and>
      prepare_test_images no_gpu (print MsgStepImages ?v2) =
        Inr (fst (projr (prepare_test_images no_gpu (print MsgStepImages ?v2))), True) \<and>
      main [] no_gpu world7 = Inr (projr (main [] no_gpu world7))"
    by (intro conjI TrueI)
  with t [THEN conjunct2, THEN conjunct2]
  have 3: "suffix final_messages (out (projr (main [] no_gpu world7)))"
    by (rule mp)
  have 4: "successes (calls (projr (main [] no_gpu world7))) = 0"
    "length (calls (projr (main [] no_gpu world7))) = 1"
    by code_simp+
  from 1 2 3 4 show ?thesis by (intro conjI)
qed

theorem ensemble_needs_two_results_witness:
  "inp (projr (main [] stub25 world7)) = [''y''] \<and>
   PromptEnsemble \<notin> set (out (projr (main [] stub25 world7))) \<and>
   MsgEnsembleCreated \<notin> set (out (projr (main [] stub25 world7))) \<and>
   \<not> path_exists (disk (projr (main [] stub25 world7))) [''create_ensemble.py'']"
proof -
  let ?w1 = "projr (start world7)"
  let ?w2 = "fst (download_models stub25 (print MsgStepModels ?w1))"
  let ?P = "prepare_test_images stub25 (print MsgStepImages ?w2)"
  let ?w3 = "fst (projr ?P)"
  let ?C = "choose_noise_levels ?w3"
  let ?I = "input PromptTile (snd (projr ?C))"
  let ?R = "run_denoising stub25 [25] False (print (MsgStart [25]) (snd (projr ?I)))"
  let ?w6 = "fst (projr ?R)"
  have h1: "start world7 = Inr ?w1"
  proof -
    have "\<not> isl (start world7)" by code_simp
    then show ?thesis by (rule InrI)
  qed
  have h2: "download_models stub25 (print MsgStepModels ?w1) = (?w2, True)"
  proof -
    have "snd (download_models stub25 (print MsgStepModels ?w1)) = True" by code_simp
    then show ?thesis by (rule pair_sndI)
  qed
  have h3: "?P = Inr (?w3, True)"
  proof -
    have "\<not> isl ?P" by code_simp
    moreover have "snd (projr ?P) = True" by code_simp
    ultimately show ?thesis by (rule Inr_pairI)
  qed
  have h4: "?C = Inr ([25], snd (projr ?C))"
  proof -
    have "\<not> isl ?C" by code_simp
    moreover have "fst (projr ?C) = [25]" by code_simp
    ultimately show ?thesis by (rule Inr_pair_fstI)
  qed
  have h5: "?I = Inr (''n'', snd (projr ?I))"
  proof -
    have "\<not> isl ?I" by code_simp
    moreover have "fst (projr ?I) = ''n''" by code_simp
    ultimately show ?thesis by (rule Inr_pair_fstI)
  qed
  have l: "(lower ''n'' = ''y'') = False" by code_simp
  have h6: "run_denoising stub25 [25] (lower ''n'' = ''y'') (print (MsgStart [25]) (snd (projr ?I))) =
              Inr (?w6, [(25, new_dir 25)])"
  proof -
    have "\<not> isl ?R" by code_simp
    moreover have "snd (projr ?R) = [(25, new_dir 25)]" by code_simp
    ultimately have "?R = Inr (?w6, [(25, new_dir 25)])" by (rule Inr_pairI)
    then show ?thesis by (simp only: l)
  qed
  have h7: "length [(25 :: int, new_dir 25)] \<le> 1" by simp
  from ensemble_needs_two_results [OF h1 h2 h3 h4 h5 h6 h7, of "[]"]
  obtain ms where m: "main [] stub25 world7 = Inr (?w6\<lparr>out := out ?w6 @ ms @ final_messages\<rparr>)"
    and n: "PromptEnsemble \<notin> set ms" "MsgEnsembleCreated \<notin> set ms"
    by blast
  have i: "inp ?w6 = [''y'']" by code_simp
  have o: "PromptEnsemble \<notin> set (out ?w6)" "MsgEnsembleCreated \<notin> set (out ?w6)" by code_simp+
  have d: "\<not> path_exists (disk ?w6) [''create_ensemble.py'']" by code_simp
  have f: "PromptEnsemble \<notin> set final_messages" "MsgEnsembleCreated \<notin> set final_messages"
    by (simp_all add: final_messages_def)
  have e: "x = Inr (v\<lparr>out := out v @ ms @ final_messages\<rparr>) \<Longrightarrow> inp v = [''y''] \<Longrightarrow>
             PromptEnsemble \<notin> set (out v) \<Longrightarrow> MsgEnsembleCreated \<notin> set (out v) \<Longrightarrow>
             \<not> path_exists (disk v) [''create_ensemble.py''] \<Longrightarrow>
           inp (projr x) = [''y''] \<and> PromptEnsemble \<notin> set (out (projr x)) \<and>
           MsgEnsembleCreated \<notin> set (out (projr x)) \<and>
           \<not> path_exists (disk (projr x)) [''create_ensemble.py'']"
    for x :: "exn + world" and v :: world
    using n f by simp
  from m i o d show ?thesis by (rule e)
qed

end
